theory Spec2Isabelle
  imports Complex_Main "HOL-Library.AList"
begin

section \<open>Values exchanged with the storefront and the datastore\<close>

text \<open>
  The synchronisation function (\<^verbatim>\<open>cloud-functions/full-sync/main.py\<close>) handles
  decoded JSON throughout: catalogue items, update records and datastore rows are Python
  dictionaries. A dictionary is an association list in insertion order with pairwise
  distinct keys; a Python \<^verbatim>\<open>float\<close> is carried as a rational.
\<close>

datatype json =
    JNull
  | JBool bool
  | JInt int
  | JFloat rat
  | JStr string
  | JList "json list"
  | JDict "(string \<times> json) list"

type_synonym dict = "(string \<times> json) list"

text \<open>The exceptions that occur in the modelled code.\<close>

datatype error =
    TypeError
  | KeyError
  | AttributeError
  | IndexError
  | ValueError
  | HTTPError nat
  | RequestException
  | MaxRetriesExceeded

text \<open>\<^verbatim>\<open>d.get(k)\<close> and \<^verbatim>\<open>d.get(k, default)\<close>.\<close>

definition dget :: "dict \<Rightarrow> string \<Rightarrow> json" where
  "dget d k = (case map_of d k of None \<Rightarrow> JNull | Some v \<Rightarrow> v)"

definition dget_default :: "dict \<Rightarrow> string \<Rightarrow> json \<Rightarrow> json" where
  "dget_default d k dflt = (case map_of d k of None \<Rightarrow> dflt | Some v \<Rightarrow> v)"

text \<open>\<^verbatim>\<open>d[k]\<close> on a dictionary: raises \<^verbatim>\<open>KeyError\<close> when the key is absent.\<close>

definition dict_item :: "dict \<Rightarrow> string \<Rightarrow> error + json" where
  "dict_item d k = (case map_of d k of None \<Rightarrow> Inl KeyError | Some v \<Rightarrow> Inr v)"

text \<open>\<^verbatim>\<open>k in d\<close>.\<close>

definition dict_has :: "dict \<Rightarrow> string \<Rightarrow> bool" where
  "dict_has d k = (map_of d k \<noteq> None)"

text \<open>
  \<^verbatim>\<open>{**a, **b}\<close>: the entries of \<open>a\<close> in their order, each entry of \<open>b\<close> then
  overwriting the value of its key in place, or being appended when the key is new.
\<close>

definition dict_merge :: "dict \<Rightarrow> dict \<Rightarrow> dict" where
  "dict_merge a b = foldl (\<lambda>acc (k, v). AList.update k v acc) a b"

text \<open>Python truthiness, and \<^verbatim>\<open>a or b\<close> (the first truthy operand, else the last).\<close>

fun truthy :: "json \<Rightarrow> bool" where
  "truthy JNull = False"
| "truthy (JBool b) = b"
| "truthy (JInt i) = (i \<noteq> 0)"
| "truthy (JFloat r) = (r \<noteq> 0)"
| "truthy (JStr s) = (s \<noteq> [])"
| "truthy (JList xs) = (xs \<noteq> [])"
| "truthy (JDict d) = (d \<noteq> [])"

definition py_or :: "json \<Rightarrow> json \<Rightarrow> json" where
  "py_or a b = (if truthy a then a else b)"

section \<open>Retry gate: \<^verbatim>\<open>WooCommerceClient._request_with_retry\<close>\<close>

text \<open>
  One call of \<^verbatim>\<open>requests.get\<close> either returns a response or raises a
  \<^verbatim>\<open>RequestException\<close> (connection failure, timeout). The upstream is a function from
  the attempt number to what that attempt yields. The gate's observable behaviour is the
  sequence of requests it sends and sleeps it takes, and what it finally returns or raises.
\<close>

datatype response = Response (status_code: nat) (body: json)

datatype outcome = Returned response | Raised error

datatype gate_event = Request nat | Sleep nat

text \<open>\<^verbatim>\<open>response.raise_for_status()\<close>: an \<^verbatim>\<open>HTTPError\<close> for every 4xx and 5xx status.\<close>

definition raise_for_status :: "response \<Rightarrow> error + unit" where
  "raise_for_status r =
     (if 400 \<le> status_code r \<and> status_code r < 600 then Inl (HTTPError (status_code r))
      else Inr ())"

text \<open>
  The loop \<^verbatim>\<open>for attempt in range(max_retries)\<close>, from \<open>attempt\<close> on. \<^verbatim>\<open>HTTPError\<close>
  is a \<^verbatim>\<open>RequestException\<close>, so the handler catches what \<^verbatim>\<open>raise_for_status\<close> raises
  as well as what \<^verbatim>\<open>requests.get\<close> raises. Inside the loop \<open>max_retries \<ge> 1\<close>, so the
  subtraction \<open>max_retries - 1\<close> does not truncate.
\<close>

function retry_loop ::
  "(nat \<Rightarrow> outcome) \<Rightarrow> nat \<Rightarrow> nat \<Rightarrow> gate_event list \<Rightarrow> gate_event list \<times> (error + response)"
where
  "retry_loop get max_retries attempt tr =
     (if attempt < max_retries then
        (case get attempt of
           Returned r \<Rightarrow>
             if status_code r = 503 \<and> attempt < max_retries - 1 then
               retry_loop get max_retries (attempt + 1)
                 (tr @ [Request attempt, Sleep ((attempt + 1) * 2)])
             else
               (case raise_for_status r of
                  Inr u \<Rightarrow> (tr @ [Request attempt], Inr r)
                | Inl e \<Rightarrow>
                    if attempt < max_retries - 1 then
                      retry_loop get max_retries (attempt + 1)
                        (tr @ [Request attempt, Sleep ((attempt + 1) * 2)])
                    else (tr @ [Request attempt], Inl e))
         | Raised e \<Rightarrow>
             if attempt < max_retries - 1 then
               retry_loop get max_retries (attempt + 1)
                 (tr @ [Request attempt, Sleep ((attempt + 1) * 2)])
             else (tr @ [Request attempt], Inl e))
      else (tr, Inl MaxRetriesExceeded))"
  by pat_completeness auto
termination
  by (relation "measure (\<lambda>(get, max_retries, attempt, tr). max_retries - attempt)") auto

definition request_with_retry ::
  "(nat \<Rightarrow> outcome) \<Rightarrow> nat \<Rightarrow> gate_event list \<times> (error + response)" where
  "request_with_retry get max_retries = retry_loop get max_retries 0 []"

text \<open>What an attempt yields counts as a failure when the gate does not return it.\<close>

definition attempt_fails :: "outcome \<Rightarrow> bool" where
  "attempt_fails out =
     (case out of Returned r \<Rightarrow> 400 \<le> status_code r \<and> status_code r < 600 | Raised e \<Rightarrow> True)"

definition attempt_error :: "outcome \<Rightarrow> error" where
  "attempt_error out = (case out of Returned r \<Rightarrow> HTTPError (status_code r) | Raised e \<Rightarrow> e)"

section \<open>Catalogue reader: \<^verbatim>\<open>WooCommerceClient.get_all_products\<close>\<close>

text \<open>
  \<^verbatim>\<open>get_products_page(page, per_page=100)\<close> goes through the retry gate and either
  returns the decoded list of items of that page or raises. The reader asks for page 1, 2,
  ... until a page is empty or shorter than 100. An upstream that serves full pages forever
  keeps the loop running, hence the result is optional: \<open>None\<close> is a reader that never
  returns. The result carries the page numbers requested, in order.
\<close>

partial_function (option) get_all_products_loop ::
  "(nat \<Rightarrow> error + json list) \<Rightarrow> nat \<Rightarrow> json list \<Rightarrow> nat list
     \<Rightarrow> (nat list \<times> (error + json list)) option"
where
  "get_all_products_loop get_products_page page all_products requested =
     (case get_products_page page of
        Inl e \<Rightarrow> Some (requested @ [page], Inl e)
      | Inr products \<Rightarrow>
          if products = [] then Some (requested @ [page], Inr all_products)
          else if length products < 100 then
            Some (requested @ [page], Inr (all_products @ products))
          else get_all_products_loop get_products_page (page + 1)
                 (all_products @ products) (requested @ [page]))"

declare get_all_products_loop.simps [code]

definition get_all_products ::
  "(nat \<Rightarrow> error + json list) \<Rightarrow> (nat list \<times> (error + json list)) option" where
  "get_all_products get_products_page = get_all_products_loop get_products_page 1 [] []"

section \<open>Item enricher: \<^verbatim>\<open>process_woo_product\<close> and \<^verbatim>\<open>fetch_product_from_woo\<close>\<close>

text \<open>
  What the enricher takes from outside the program: the built-in \<^verbatim>\<open>float\<close> (its
  parsing and rounding are not modelled; it returns a float or raises), and the two
  storefront calls \<^verbatim>\<open>client.get_product_variations(woo_id)\<close> and
  \<^verbatim>\<open>client.get_product(woo_id)\<close>, each returning the decoded body or raising after
  the retry gate has given up.
\<close>

record env =
  py_float :: "json \<Rightarrow> error + json"
  get_product_variations :: "json \<Rightarrow> error + json"
  get_product :: "json \<Rightarrow> error + json"

text \<open>The keys of \<^verbatim>\<open>SITES\<close>.\<close>

definition SITES :: "string list" where
  "SITES = [''com'', ''uk'', ''de'', ''fr'']"

text \<open>Sequencing of computations that may raise.\<close>

definition then_err :: "error + 'a \<Rightarrow> ('a \<Rightarrow> error + 'b) \<Rightarrow> error + 'b" where
  "then_err r f = (case r of Inl e \<Rightarrow> Inl e | Inr x \<Rightarrow> f x)"

fun map_err :: "('a \<Rightarrow> error + 'b) \<Rightarrow> 'a list \<Rightarrow> error + 'b list" where
  "map_err f [] = Inr []"
| "map_err f (x # xs) =
     (case f x of
        Inl e \<Rightarrow> Inl e
      | Inr y \<Rightarrow> (case map_err f xs of Inl e \<Rightarrow> Inl e | Inr ys \<Rightarrow> Inr (y # ys)))"

text \<open>
  \<^verbatim>\<open>for x in v\<close>: a list yields its elements, a string its characters, a dictionary
  its keys; anything else is not iterable.
\<close>

definition py_iter :: "json \<Rightarrow> error + json list" where
  "py_iter v =
     (case v of
        JList xs \<Rightarrow> Inr xs
      | JStr s \<Rightarrow> Inr (map (\<lambda>c. JStr [c]) s)
      | JDict d \<Rightarrow> Inr (map (\<lambda>kv. JStr (fst kv)) d)
      | _ \<Rightarrow> Inl TypeError)"

text \<open>\<^verbatim>\<open>v[k]\<close> for a string key \<open>k\<close>, and \<^verbatim>\<open>v[0]\<close>.\<close>

definition subscript_key :: "json \<Rightarrow> string \<Rightarrow> error + json" where
  "subscript_key v k = (case v of JDict d \<Rightarrow> dict_item d k | _ \<Rightarrow> Inl TypeError)"

definition subscript_0 :: "json \<Rightarrow> error + json" where
  "subscript_0 v =
     (case v of
        JList xs \<Rightarrow> (case xs of [] \<Rightarrow> Inl IndexError | x # _ \<Rightarrow> Inr x)
      | JStr s \<Rightarrow> (case s of [] \<Rightarrow> Inl IndexError | c # _ \<Rightarrow> Inr (JStr [c]))
      | JDict d \<Rightarrow> Inl KeyError
      | _ \<Rightarrow> Inl TypeError)"

text \<open>
  \<^verbatim>\<open>s.lower().replace(' ', '')\<close>. Lower-casing acts on the letters A to Z; the synonym
  table below is ASCII, and other characters are left as they are.
\<close>

definition lower_char :: "char \<Rightarrow> char" where
  "lower_char c =
     (let n = (of_char c :: nat) in if 65 \<le> n \<and> n \<le> 90 then char_of (n + 32) else c)"

definition normalise_name :: "string \<Rightarrow> string" where
  "normalise_name s = filter (\<lambda>c. c \<noteq> CHR '' '') (map lower_char s)"

text \<open>
  \<^verbatim>\<open>attr_name = (attr.get('name', '') or '').lower().replace(' ', '')\<close> and
  \<^verbatim>\<open>value = (attr.get('options') or [''])[0] if attr.get('options') else ''\<close>.
\<close>

definition attr_name_of :: "dict \<Rightarrow> error + string" where
  "attr_name_of attr =
     (case py_or (dget_default attr ''name'' (JStr [])) (JStr []) of
        JStr s \<Rightarrow> Inr (normalise_name s)
      | _ \<Rightarrow> Inl AttributeError)"

definition attr_value_of :: "dict \<Rightarrow> error + json" where
  "attr_value_of attr =
     (if truthy (dget attr ''options'')
      then subscript_0 (py_or (dget attr ''options'') (JList [JStr []]))
      else Inr (JStr []))"

text \<open>The \<^verbatim>\<open>if\<close>/\<^verbatim>\<open>elif\<close> chain over the normalised attribute name.\<close>

definition remap_attribute :: "dict \<Rightarrow> string \<Rightarrow> json \<Rightarrow> dict \<Rightarrow> dict" where
  "remap_attribute attributes attr_name val attr =
     (if attr_name \<in> set [''genderage'', ''gender''] then AList.update ''gender'' val attributes
      else if attr_name = ''season'' then AList.update ''season'' val attributes
      else if attr_name \<in> set [''jerseytype'', ''type''] then AList.update ''type'' val attributes
      else if attr_name \<in> set [''style'', ''version''] then
        AList.update ''version'' val attributes
      else if attr_name \<in> set [''sleevelength'', ''sleeve''] then
        AList.update ''sleeve'' val attributes
      else if attr_name = ''team'' then AList.update ''team'' val attributes
      else if attr_name \<in> set [''event'', ''events''] then
        AList.update ''events'' (dget_default attr ''options'' (JList [])) attributes
      else attributes)"

fun extract_attributes :: "json list \<Rightarrow> dict \<Rightarrow> error + dict" where
  "extract_attributes [] attributes = Inr attributes"
| "extract_attributes (a # rest) attributes =
     (case a of
        JDict attr \<Rightarrow>
          (case attr_name_of attr of
             Inl e \<Rightarrow> Inl e
           | Inr attr_name \<Rightarrow>
               (case attr_value_of attr of
                  Inl e \<Rightarrow> Inl e
                | Inr val \<Rightarrow>
                    extract_attributes rest (remap_attribute attributes attr_name val attr)))
      | _ \<Rightarrow> Inl AttributeError)"

text \<open>
  The block under \<^verbatim>\<open>if site == 'com'\<close>: the entries it adds to \<^verbatim>\<open>update_data\<close>, in
  the order it adds them. Other sites add none.
\<close>

definition canonical_fields :: "string \<Rightarrow> dict \<Rightarrow> error + dict" where
  "canonical_fields site woo_product =
     (if site = ''com'' then
        then_err
          (then_err (py_iter (dget_default woo_product ''images'' (JList [])))
             (map_err (\<lambda>img. subscript_key img ''src'')))
          (\<lambda>images.
        then_err
          (then_err (py_iter (dget_default woo_product ''categories'' (JList [])))
             (map_err (\<lambda>c. subscript_key c ''name'')))
          (\<lambda>categories.
        then_err
          (then_err (py_iter (dget_default woo_product ''attributes'' (JList [])))
             (\<lambda>attrs. extract_attributes attrs []))
          (\<lambda>attributes.
             Inr ([(''name'', dget_default woo_product ''name'' (JStr [])),
                   (''images'', JList images),
                   (''categories'', JList categories)]
                  @ (if attributes \<noteq> [] then [(''attributes'', JDict attributes)] else [])))))
      else Inr [])"

text \<open>
  The variant list: fetched only for an item of type \<^verbatim>\<open>variable\<close>; any exception
  while fetching or while building the list leaves \<^verbatim>\<open>site_variations\<close> empty.
\<close>

definition variation_record :: "json \<Rightarrow> error + json" where
  "variation_record v =
     then_err (subscript_key v ''id'')
       (\<lambda>i. case v of
          JDict d \<Rightarrow>
            Inr (JDict
              [(''id'', i),
               (''sku'', dget_default d ''sku'' (JStr [])),
               (''attributes'', dget_default d ''attributes'' (JList [])),
               (''regular_price'', dget_default d ''regular_price'' (JStr [])),
               (''sale_price'', dget_default d ''sale_price'' (JStr [])),
               (''stock_quantity'', dget d ''stock_quantity''),
               (''stock_status'', dget_default d ''stock_status'' (JStr ''instock''))])
        | _ \<Rightarrow> Inl AttributeError)"

definition site_variations_of :: "env \<Rightarrow> dict \<Rightarrow> json \<Rightarrow> json list" where
  "site_variations_of env woo_product woo_id =
     (if dget woo_product ''type'' = JStr ''variable'' then
        (case then_err (get_product_variations env woo_id)
                (\<lambda>variations. then_err (py_iter variations) (map_err variation_record)) of
           Inl e \<Rightarrow> []
         | Inr site_variations \<Rightarrow> site_variations)
      else [])"

text \<open>
  The dictionary literal both functions start \<^verbatim>\<open>update_data\<close> with, up to
  \<^verbatim>\<open>last_synced_at\<close>; \<open>now\<close> is the reading of \<^verbatim>\<open>datetime.utcnow().isoformat()\<close>.
\<close>

definition site_fields :: "env \<Rightarrow> string \<Rightarrow> string \<Rightarrow> json \<Rightarrow> dict \<Rightarrow> error + dict" where
  "site_fields env site now sku woo_product =
     then_err
       (py_float env
          (py_or (py_or (dget woo_product ''sale_price'') (dget woo_product ''price'')) (JInt 0)))
       (\<lambda>price.
     then_err
       (py_float env
          (py_or (py_or (dget woo_product ''regular_price'') (dget woo_product ''price''))
             (JInt 0)))
       (\<lambda>regular_price.
          Inr [(''sku'', sku),
               (''prices'', JDict [(site, price)]),
               (''regular_prices'', JDict [(site, regular_price)]),
               (''stock_quantities'',
                  JDict [(site, py_or (dget woo_product ''stock_quantity'') (JInt 100))]),
               (''stock_statuses'',
                  JDict [(site, dget_default woo_product ''stock_status'' (JStr ''instock''))]),
               (''statuses'',
                  JDict [(site, dget_default woo_product ''status'' (JStr ''publish''))]),
               (''content'',
                  JDict [(site, JDict
                    [(''name'', dget_default woo_product ''name'' (JStr [])),
                     (''description'', dget_default woo_product ''description'' (JStr [])),
                     (''short_description'',
                        dget_default woo_product ''short_description'' (JStr []))])]),
               (''sync_status'', JDict [(site, JStr ''synced'')]),
               (''last_synced_at'', JStr now)]))"

definition variation_fields :: "string \<Rightarrow> json list \<Rightarrow> dict" where
  "variation_fields site site_variations =
     [(''variations'', JDict [(site, JList site_variations)]),
      (''variation_counts'', JDict [(site, JInt (int (length site_variations)))])]"

text \<open>
  The result of an enrichment: \<^verbatim>\<open>{'sku', 'success': True, 'data'}\<close> or
  \<^verbatim>\<open>{'sku', 'success': False, 'error'}\<close>. \<^verbatim>\<open>process_woo_product\<close> returns \<^verbatim>\<open>None\<close>
  (here \<open>None\<close>) for a task that starts after cancellation and for an item without SKU.
\<close>

datatype enrich_result = Enriched json dict | Failed json error

definition process_woo_product ::
  "env \<Rightarrow> string \<Rightarrow> string \<Rightarrow> bool \<Rightarrow> dict \<Rightarrow> enrich_result option" where
  "process_woo_product env site now cancelled woo_product =
     (if cancelled then None
      else
        let sku = dget_default woo_product ''sku'' (JStr []);
            woo_id = dget woo_product ''id''
        in if \<not> truthy sku then None
           else
             (case then_err (site_fields env site now sku woo_product)
                     (\<lambda>fields. then_err (canonical_fields site woo_product)
                        (\<lambda>canonical.
                           Inr (fields @ [(''woo_ids'', JDict [(site, woo_id)])] @ canonical
                                @ variation_fields site
                                    (site_variations_of env woo_product woo_id)))) of
                Inl e \<Rightarrow> Some (Failed sku e)
              | Inr update_data \<Rightarrow> Some (Enriched sku update_data)))"

definition fetch_product_from_woo ::
  "env \<Rightarrow> string \<Rightarrow> json \<Rightarrow> json \<Rightarrow> string \<Rightarrow> enrich_result" where
  "fetch_product_from_woo env now sku woo_id site =
     (case
        (if site \<notin> set SITES then Inl ValueError
         else then_err (get_product env woo_id)
           (\<lambda>p. case p of
              JDict woo_product \<Rightarrow>
                then_err (site_fields env site now sku woo_product)
                  (\<lambda>fields. then_err (canonical_fields site woo_product)
                     (\<lambda>canonical.
                        Inr (fields @ canonical
                             @ variation_fields site
                                 (site_variations_of env woo_product woo_id))))
            | _ \<Rightarrow> Inl AttributeError)) of
        Inl e \<Rightarrow> Failed sku e
      | Inr update_data \<Rightarrow> Enriched sku update_data)"

section \<open>Batch merger and writer: \<^verbatim>\<open>batch_update_products\<close>\<close>

text \<open>
  The \<^verbatim>\<open>products\<close> table maps a SKU to its row; a row is a dictionary from column name
  to value, a column that is NULL being an absent key (\<^verbatim>\<open>.get\<close> reads \<^verbatim>\<open>None\<close> for
  both). Reads and writes of the datastore are taken to succeed.
\<close>

type_synonym store = "json \<Rightarrow> dict option"

definition per_site_fields :: "string list" where
  "per_site_fields =
     [''prices'', ''regular_prices'', ''stock_quantities'', ''stock_statuses'', ''statuses'',
      ''content'', ''sync_status'', ''variations'', ''variation_counts'']"

definition canonical_keys :: "string list" where
  "canonical_keys = [''name'', ''images'', ''categories'', ''attributes'']"

text \<open>
  The bulk read \<^verbatim>\<open>select('sku, prices, ...').in_('sku', skus)\<close> and the dictionary
  \<^verbatim>\<open>existing_map\<close> built from it: the rows whose SKU is in \<open>skus\<close>, cut down to the
  selected columns.
\<close>

definition selected_columns :: "string list" where
  "selected_columns = ''sku'' # per_site_fields"

definition select_columns :: "dict \<Rightarrow> dict" where
  "select_columns row = filter (\<lambda>kv. fst kv \<in> set selected_columns) row"

definition existing_map_of :: "store \<Rightarrow> json list \<Rightarrow> store" where
  "existing_map_of supabase skus =
     (\<lambda>sku. if sku \<in> set skus then map_option select_columns (supabase sku) else None)"

definition safe_dict :: "json \<Rightarrow> dict" where
  "safe_dict val = (case val of JDict d \<Rightarrow> d | _ \<Rightarrow> [])"

text \<open>
  One entry of \<^verbatim>\<open>merged\<close>:
  \<^verbatim>\<open>{**safe_dict(existing.get(field)), **update.get(field, {})}\<close>. Unpacking a value
  that is not a mapping raises \<^verbatim>\<open>TypeError\<close>.
\<close>

definition merge_site_field :: "dict \<Rightarrow> dict \<Rightarrow> string \<Rightarrow> error + string \<times> json" where
  "merge_site_field existing update field =
     (case dget_default update field (JDict []) of
        JDict u \<Rightarrow> Inr (field, JDict (dict_merge (safe_dict (dget existing field)) u))
      | _ \<Rightarrow> Inl TypeError)"

text \<open>\<^verbatim>\<open>if key in update: merged[key] = update[key]\<close>.\<close>

definition copy_if_present :: "dict \<Rightarrow> string \<Rightarrow> dict \<Rightarrow> dict" where
  "copy_if_present update key merged =
     (case map_of update key of None \<Rightarrow> merged | Some v \<Rightarrow> AList.update key v merged)"

text \<open>The body of the loop \<^verbatim>\<open>for update in updates\<close>: the record \<^verbatim>\<open>merged\<close>.\<close>

definition merge_update :: "store \<Rightarrow> dict \<Rightarrow> error + dict" where
  "merge_update existing_map update =
     then_err (dict_item update ''sku'')
       (\<lambda>sku.
          let existing = (case existing_map sku of None \<Rightarrow> [] | Some p \<Rightarrow> p) in
          then_err (map_err (merge_site_field existing update) per_site_fields)
            (\<lambda>fields.
               let merged =
                 [(''sku'', sku)] @ fields
                 @ [(''last_synced_at'', dget update ''last_synced_at'')]
               in Inr (copy_if_present update ''attributes''
                        (copy_if_present update ''categories''
                          (copy_if_present update ''images''
                            (copy_if_present update ''name'' merged))))))"

definition final_updates_of :: "store \<Rightarrow> dict list \<Rightarrow> error + dict list" where
  "final_updates_of supabase updates =
     then_err (map_err (\<lambda>u. dict_item u ''sku'') updates)
       (\<lambda>skus. map_err (merge_update (existing_map_of supabase skus)) updates)"

text \<open>
  Modelled from the spec: the datastore's bulk upsert, which is not code of this
  repository. It is keyed by SKU and last-write-wins per field: a record creates the row
  of its SKU or overwrites, in the row that is there, the columns it carries; the records
  of a batch are applied in their order.
\<close>

fun upsert :: "store \<Rightarrow> dict list \<Rightarrow> store" where
  "upsert supabase [] = supabase"
| "upsert supabase (r # rs) =
     upsert
       (supabase(dget r ''sku'' \<mapsto>
          dict_merge (case supabase (dget r ''sku'') of None \<Rightarrow> [] | Some row \<Rightarrow> row) r))
       rs"

definition batch_update_products :: "store \<Rightarrow> dict list \<Rightarrow> string \<Rightarrow> error + store" where
  "batch_update_products supabase updates site =
     (if updates = [] then Inr supabase
      else then_err (final_updates_of supabase updates)
             (\<lambda>final_updates. Inr (upsert supabase final_updates)))"

text \<open>
  Reading a stored record: the entry of one site in a per-site field (a field that is
  absent or not a dictionary has no entries), a whole column, and the count invariant of
  one site on one record.
\<close>

definition site_entry :: "store \<Rightarrow> json \<Rightarrow> string \<Rightarrow> string \<Rightarrow> json option" where
  "site_entry supabase sku field site =
     (case supabase sku of
        None \<Rightarrow> None
      | Some row \<Rightarrow> map_of (safe_dict (dget row field)) site)"

definition column :: "store \<Rightarrow> json \<Rightarrow> string \<Rightarrow> json option" where
  "column supabase sku key = (case supabase sku of None \<Rightarrow> None | Some row \<Rightarrow> map_of row key)"


section \<open>A sample storefront for concrete instances\<close>

text \<open>
  A \<^verbatim>\<open>float\<close> that converts numbers and rejects everything else with the exception
  Python raises (strings are rejected too: parsing is not modelled), a storefront with two
  variants for every item, and one product behind \<^verbatim>\<open>get_product\<close>.
\<close>

definition sample_env :: env where
  "sample_env =
     \<lparr>py_float =
        (\<lambda>v. case v of
           JInt i \<Rightarrow> Inr (JFloat (of_int i))
         | JFloat r \<Rightarrow> Inr (JFloat r)
         | JBool b \<Rightarrow> Inr (JFloat (if b then 1 else 0))
         | JStr s \<Rightarrow> Inl ValueError
         | _ \<Rightarrow> Inl TypeError),
      get_product_variations =
        (\<lambda>woo_id. Inr (JList [JDict [(''id'', JInt 7)],
                              JDict [(''id'', JInt 8), (''sku'', JStr ''A1-L'')]])),
      get_product =
        (\<lambda>woo_id. Inr (JDict [(''id'', woo_id), (''sku'', JStr ''A1''), (''price'', JInt 30),
                              (''stock_quantity'', JInt 0)]))\<rparr>"

text \<open>
  An update record of a sync of \<open>site\<close>: it has a SKU, and each of its per-site fields is
  absent or a dictionary with no key other than \<open>site\<close>.
\<close>

definition carries_only :: "string \<Rightarrow> dict \<Rightarrow> bool" where
  "carries_only site update =
     (dict_has update ''sku'' \<and>
      list_all
        (\<lambda>field. case dget_default update field (JDict []) of
                    JDict u \<Rightarrow> list_all (\<lambda>kv. fst kv = site) u
                  | _ \<Rightarrow> False)
        per_site_fields)"

text \<open>A stored record that the primary site has written, and an item of another site.\<close>

definition sample_store :: store where
  "sample_store =
     Map.empty(JStr ''A1'' \<mapsto>
       [(''sku'', JStr ''A1''),
        (''name'', JStr ''Home shirt''),
        (''prices'', JDict [(''com'', JFloat 25)]),
        (''variations'', JDict [(''com'', JList [])]),
        (''variation_counts'', JDict [(''com'', JInt 0)])])"

definition sample_item :: dict where
  "sample_item =
     [(''sku'', JStr ''A1''), (''id'', JInt 5), (''price'', JInt 30),
      (''name'', JStr ''Maillot''), (''type'', JStr ''variable'')]"

section \<open>Site synchronisation: \<^verbatim>\<open>full_sync_site\<close>\<close>

text \<open>
  What a run takes from outside: the enricher's environment; the pages of the catalogue;
  the answers of \<^verbatim>\<open>check_if_cancelled\<close>, indexed by the value of
  \<^verbatim>\<open>progress['completed']\<close> at the poll (0 for the poll before step 2; the polls in the
  loop have pairwise different, positive values); and \<^verbatim>\<open>as_completed\<close>, the order in
  which the pool's tasks complete, each task with the clock reading its enrichment took.
  The main thread alone consumes results, so the loop is sequential. It leaves the loop
  as soon as \<^verbatim>\<open>progress['cancelled']\<close> is set, and only it sets the flag: every result it
  consumes comes from a task that saw the flag unset.
\<close>

record sync_env =
  enricher :: env
  get_products_page :: "nat \<Rightarrow> error + json list"
  check_if_cancelled :: "nat \<Rightarrow> bool"
  as_completed :: "json list \<Rightarrow> (string \<times> json) list"

text \<open>
  What a run does to the datastore, in the order it does it: a call of
  \<^verbatim>\<open>update_progress\<close> (status, current, total, success, failed), a poll of
  \<^verbatim>\<open>check_if_cancelled\<close> (with the value of \<^verbatim>\<open>progress['completed']\<close> at the poll), a
  batch handed to \<^verbatim>\<open>batch_update_products\<close>.
\<close>

datatype sync_event =
  Reported string nat nat nat nat
| Polled nat
| Wrote "dict list"

text \<open>
  The state of a run: the dictionary \<^verbatim>\<open>progress\<close>, the buffers \<^verbatim>\<open>pending_updates\<close> and
  \<^verbatim>\<open>failed_skus\<close>, the datastore, and the events so far.
\<close>

record sync_state =
  completed :: nat
  success :: nat
  failed :: nat
  cancelled :: bool
  pending_updates :: "dict list"
  failed_skus :: "json list"
  supabase :: store
  events :: "sync_event list"

text \<open>The reports, the polls and the batches among the events, each in their order.\<close>

definition reports :: "sync_state \<Rightarrow> (string \<times> nat \<times> nat \<times> nat \<times> nat) list" where
  "reports st =
     concat (map (\<lambda>e. case e of Reported s c t n f \<Rightarrow> [(s, c, t, n, f)] | _ \<Rightarrow> [])
               (events st))"

definition polls :: "sync_state \<Rightarrow> nat list" where
  "polls st = concat (map (\<lambda>e. case e of Polled c \<Rightarrow> [c] | _ \<Rightarrow> []) (events st))"

definition writes :: "sync_state \<Rightarrow> dict list list" where
  "writes st = concat (map (\<lambda>e. case e of Wrote b \<Rightarrow> [b] | _ \<Rightarrow> []) (events st))"


definition update_progress ::
  "string \<Rightarrow> nat \<Rightarrow> nat \<Rightarrow> nat \<Rightarrow> nat \<Rightarrow> sync_state \<Rightarrow> sync_state" where
  "update_progress status current n_total n_success n_failed st =
     st\<lparr>events := events st @ [Reported status current n_total n_success n_failed]\<rparr>"








text \<open>
  A run over a catalogue of one page that holds \<open>sample_item\<close>, in which the user cancels
  while the item is being enriched: the poll at the first completion reports it.
\<close>

definition cancelling_env :: sync_env where
  "cancelling_env =
     \<lparr>enricher = sample_env,
      get_products_page = (\<lambda>page. Inr (if page = 1 then [JDict sample_item] else [])),
      check_if_cancelled = (\<lambda>n. n = 1),
      as_completed = map (Pair ''2025-01-01T00:00:00'')\<rparr>"

text \<open>
  The same catalogue in a run that nobody cancels, and in a later run of it, whose tasks
  complete in the same order and read a later clock.
\<close>

definition completing_env :: sync_env where
  "completing_env = cancelling_env\<lparr>check_if_cancelled := (\<lambda>n. False)\<rparr>"

definition later_env :: sync_env where
  "later_env = completing_env\<lparr>as_completed := map (Pair ''2025-01-02T00:00:00'')\<rparr>"





section \<open>Properties of the retry gate\<close>

declare retry_loop.simps [simp del]

lemma retry_loop_fail_step:
  assumes "attempt_fails (get attempt)" and "attempt + 1 < max_retries"
  shows "retry_loop get max_retries attempt tr =
         retry_loop get max_retries (attempt + 1)
           (tr @ [Request attempt, Sleep ((attempt + 1) * 2)])"
  using assms
  by (subst retry_loop.simps)
     (auto simp: attempt_fails_def raise_for_status_def split: outcome.splits sum.splits)

lemma retry_loop_fail_last:
  assumes "attempt_fails (get attempt)" and "attempt + 1 = max_retries"
  shows "retry_loop get max_retries attempt tr =
         (tr @ [Request attempt], Inl (attempt_error (get attempt)))"
  using assms
  by (subst retry_loop.simps)
     (auto simp: attempt_fails_def attempt_error_def raise_for_status_def
           split: outcome.splits sum.splits)

lemma retry_loop_extends: "\<exists>rest res. retry_loop get m a tr = (tr @ rest, res)"
proof (induction get m a tr rule: retry_loop.induct)
  case (1 get max_retries attempt tr)
  let ?tr' = "tr @ [Request attempt, Sleep ((attempt + 1) * 2)]"
  have "\<exists>rest res. retry_loop get max_retries (attempt + 1) ?tr' = (tr @ rest, res)"
    if "retry_loop get max_retries (attempt + 1) ?tr' = (?tr' @ rest', res')" for rest' res'
    using that by simp
  with 1 show ?case
    by (subst retry_loop.simps) (fastforce split: outcome.splits sum.splits)
qed

lemma retry_loop_sends:
  assumes "a < m"
  shows "\<exists>rest res. retry_loop get m a tr = (tr @ Request a # rest, res)"
proof -
  let ?tr' = "tr @ [Request a, Sleep ((a + 1) * 2)]"
  obtain rest' res' where "retry_loop get m (a + 1) ?tr' = (?tr' @ rest', res')"
    using retry_loop_extends by blast
  then have "\<exists>rest res. retry_loop get m (a + 1) ?tr' = (tr @ Request a # rest, res)"
    by simp
  then show ?thesis
    using assms by (subst retry_loop.simps) (auto split: outcome.splits sum.splits)
qed

text \<open>
  C6. With the default bound of 3, a request that fails on every attempt (a 4xx or 5xx
  status, 503 included, or a transport exception) is sent exactly three times, the gate
  sleeps 2 seconds after the first failure and 4 seconds after the second, does not sleep
  after the third, and raises the error of the third attempt.
\<close>

theorem retry_gate_three_attempts:
  assumes "\<forall>a<3. attempt_fails (get a)"
  shows "request_with_retry get 3 =
         ([Request 0, Sleep 2, Request 1, Sleep 4, Request 2], Inl (attempt_error (get 2)))"
proof -
  have f0: "attempt_fails (get 0)" and f1: "attempt_fails (get 1)"
    and f2: "attempt_fails (get 2)"
    using assms by simp_all
  have "retry_loop get 3 0 [] = retry_loop get 3 1 [Request 0, Sleep 2]"
    using retry_loop_fail_step [of get 0 3 "[]"] f0 by simp
  also have "\<dots> = retry_loop get 3 2 [Request 0, Sleep 2, Request 1, Sleep 4]"
    using retry_loop_fail_step [of get 1 3 "[Request 0, Sleep 2]"] f1 by (simp add: eval_nat_numeral)
  also have "\<dots> = ([Request 0, Sleep 2, Request 1, Sleep 4, Request 2],
                     Inl (attempt_error (get 2)))"
    using retry_loop_fail_last [of get 2 3 "[Request 0, Sleep 2, Request 1, Sleep 4]"] f2
    by (simp add: eval_nat_numeral)
  finally show ?thesis by (simp add: request_with_retry_def)
qed

theorem retry_gate_three_attempts_witness:
  "attempt_fails (Returned (Response 503 JNull)) \<and>
   request_with_retry (\<lambda>a. Returned (Response 503 JNull)) 3 =
     ([Request 0, Sleep 2, Request 1, Sleep 4, Request 2], Inl (HTTPError 503))"
  using retry_gate_three_attempts [of "\<lambda>a. Returned (Response 503 JNull)"]
  by (simp add: attempt_fails_def attempt_error_def)

text \<open>
  C3, as stated, fails: a request answered 404 every time is sent three times, with both
  backoff sleeps, before the error reaches the caller.
\<close>

theorem retry_gate_404_counterexample:
  "request_with_retry (\<lambda>a. Returned (Response 404 JNull)) 3 =
     ([Request 0, Sleep 2, Request 1, Sleep 4, Request 2], Inl (HTTPError 404))"
proof -
  let ?get = "\<lambda>a::nat. Returned (Response 404 JNull)"
  have f: "attempt_fails (?get a)" for a :: nat
    by (simp add: attempt_fails_def)
  have "retry_loop ?get 3 0 [] = retry_loop ?get 3 1 [Request 0, Sleep 2]"
    using retry_loop_fail_step [of ?get 0 3 "[]"] f by simp
  also have "\<dots> = retry_loop ?get 3 2 [Request 0, Sleep 2, Request 1, Sleep 4]"
    using retry_loop_fail_step [of ?get 1 3 "[Request 0, Sleep 2]"] f by (simp add: eval_nat_numeral)
  also have "\<dots> = ([Request 0, Sleep 2, Request 1, Sleep 4, Request 2],
                     Inl (attempt_error (?get 2)))"
    using retry_loop_fail_last [of ?get 2 3 "[Request 0, Sleep 2, Request 1, Sleep 4]"] f
    by (simp add: eval_nat_numeral)
  finally show ?thesis by (simp add: request_with_retry_def attempt_error_def)
qed

text \<open>
  C3, amended. The gate does not tell a 4xx status from any other failure: a request that
  is answered with a status from 400 to 499 on each attempt is sent three times, the gate
  sleeps 2 seconds after the first answer and 4 seconds after the second, and only the
  error of the third answer reaches the caller.
\<close>

theorem retry_gate_4xx_is_retried:
  assumes "\<forall>a<3. get a = Returned (r a) \<and> 400 \<le> status_code (r a) \<and> status_code (r a) < 500"
  shows "request_with_retry get 3 =
         ([Request 0, Sleep 2, Request 1, Sleep 4, Request 2],
          Inl (HTTPError (status_code (r 2))))"
proof -
  have g: "get 0 = Returned (r 0)" "get 1 = Returned (r 1)" "get 2 = Returned (r 2)"
    and c: "400 \<le> status_code (r 0)" "status_code (r 0) < 500"
      "400 \<le> status_code (r 1)" "status_code (r 1) < 500"
      "400 \<le> status_code (r 2)" "status_code (r 2) < 500"
    using assms by simp_all
  have f0: "attempt_fails (get 0)" and f1: "attempt_fails (get 1)"
    and f2: "attempt_fails (get 2)"
    using g c by (simp_all add: attempt_fails_def)
  have "retry_loop get 3 0 [] = retry_loop get 3 1 [Request 0, Sleep 2]"
    using retry_loop_fail_step [of get 0 3 "[]"] f0 by simp
  also have "\<dots> = retry_loop get 3 2 [Request 0, Sleep 2, Request 1, Sleep 4]"
    using retry_loop_fail_step [of get 1 3 "[Request 0, Sleep 2]"] f1
    by (simp add: eval_nat_numeral)
  also have "\<dots> = ([Request 0, Sleep 2, Request 1, Sleep 4, Request 2],
                     Inl (attempt_error (get 2)))"
    using retry_loop_fail_last [of get 2 3 "[Request 0, Sleep 2, Request 1, Sleep 4]"] f2
    by (simp add: eval_nat_numeral)
  finally show ?thesis
    using g by (simp add: request_with_retry_def attempt_error_def)
qed

theorem retry_gate_4xx_is_retried_witness:
  "request_with_retry
     (\<lambda>a. Returned (if a = 0 then Response 404 JNull
                     else if a = 1 then Response 403 JNull else Response 410 JNull)) 3 =
     ([Request 0, Sleep 2, Request 1, Sleep 4, Request 2], Inl (HTTPError 410))"
  using retry_gate_4xx_is_retried
    [of "\<lambda>a. Returned (if a = 0 then Response 404 JNull
                        else if a = 1 then Response 403 JNull else Response 410 JNull)"
        "\<lambda>a. if a = 0 then Response 404 JNull
              else if a = 1 then Response 403 JNull else Response 410 JNull"]
  by simp

section \<open>Properties of the catalogue reader\<close>

lemma get_all_products_loop_pages:
  assumes full: "\<forall>p. page \<le> p \<and> p < N \<longrightarrow> pages p = Inr (f p) \<and> length (f p) = 100"
    and last: "pages N = Inr final" "length final < 100"
    and le: "page \<le> N"
  shows "get_all_products_loop pages page acc req =
         Some (req @ [page..<N + 1], Inr (acc @ concat (map f [page..<N]) @ final))"
  using full le
proof (induction "N - page" arbitrary: page acc req)
  case 0
  then have "page = N" by simp
  then show ?case
    using last by (subst get_all_products_loop.simps) auto
next
  case (Suc d)
  then have lt: "page < N" by simp
  then have pg: "pages page = Inr (f page)" "length (f page) = 100"
    using Suc.prems by simp_all
  have ne: "f page \<noteq> []" using pg(2) by auto
  have ih: "get_all_products_loop pages (page + 1) (acc @ f page) (req @ [page]) =
            Some ((req @ [page]) @ [page + 1..<N + 1],
                  Inr ((acc @ f page) @ concat (map f [page + 1..<N]) @ final))"
    using Suc.hyps(1) [of "page + 1" "acc @ f page" "req @ [page]"] Suc.hyps(2) Suc.prems lt
    by simp
  have u1: "[page..<N + 1] = page # [page + 1..<N + 1]"
    using lt by (simp add: upt_conv_Cons)
  have u2: "[page..<N] = page # [page + 1..<N]"
    using lt by (simp add: upt_conv_Cons)
  have "get_all_products_loop pages page acc req =
        get_all_products_loop pages (page + 1) (acc @ f page) (req @ [page])"
    by (subst get_all_products_loop.simps) (simp add: pg ne)
  also note ih
  also have "Some ((req @ [page]) @ [page + 1..<N + 1],
                   Inr ((acc @ f page) @ concat (map f [page + 1..<N]) @ final)) =
             Some (req @ [page..<N + 1], Inr (acc @ concat (map f [page..<N]) @ final))"
    unfolding u1 u2 by simp
  finally show ?case .
qed

lemma full_pages_length:
  "\<forall>p\<in>set ps. length (f p) = 100 \<Longrightarrow> length (concat (map f ps)) = length ps * 100"
  by (induction ps) simp_all

text \<open>
  C7. When pages 1 to N-1 hold 100 items each and page N holds M < 100 items (M = 0
  included), the reader returns, requests the pages 1, ..., N in this order and no other,
  and delivers the items of the pages concatenated in page order: (N-1)*100 + M items.
\<close>

theorem get_all_products_short_page:
  assumes "1 \<le> N"
    and "\<forall>p. 1 \<le> p \<and> p < N \<longrightarrow> pages p = Inr (f p) \<and> length (f p) = 100"
    and "pages N = Inr final" and "length final = M" and "M < 100"
  shows "\<exists>items. get_all_products pages = Some ([1..<N + 1], Inr items) \<and>
           items = concat (map f [1..<N]) @ final \<and>
           length items = (N - 1) * 100 + M"
proof -
  have len: "length (concat (map f [1..<N])) = (N - 1) * 100"
    using full_pages_length [of "[1..<N]" f] assms(2) by simp
  have "get_all_products pages =
        Some ([1..<N + 1], Inr (concat (map f [1..<N]) @ final))"
    unfolding get_all_products_def
    using get_all_products_loop_pages [of 1 N pages f final "[]" "[]"] assms by simp
  then show ?thesis
    using len assms(4) by simp
qed

theorem get_all_products_short_page_witness:
  "(1::nat) \<le> 2 \<and> length (replicate 100 JNull) = 100 \<and>
   (\<exists>items.
      get_all_products
        (\<lambda>p. if p = 1 then Inr (replicate 100 JNull) else Inr [JNull, JNull, JNull])
        = Some ([1..<2 + 1], Inr items) \<and>
      length items = (2 - 1) * 100 + 3)"
  using get_all_products_short_page
    [of 2 "\<lambda>p. if p = 1 then Inr (replicate 100 JNull) else Inr [JNull, JNull, JNull]"
        "\<lambda>p. replicate 100 JNull" "[JNull, JNull, JNull]" 3]
  by auto


section \<open>Properties of the item enricher\<close>

lemma then_err_Inr:
  "then_err r f = Inr y \<longleftrightarrow> (\<exists>x. r = Inr x \<and> f x = Inr y)"
  by (cases r) (simp_all add: then_err_def)

lemma site_fields_shape:
  assumes "site_fields env site now sku woo_product = Inr base"
  shows "\<exists>price regular_price content.
     base =
       [(''sku'', sku),
        (''prices'', JDict [(site, price)]),
        (''regular_prices'', JDict [(site, regular_price)]),
        (''stock_quantities'',
           JDict [(site, py_or (dget woo_product ''stock_quantity'') (JInt 100))]),
        (''stock_statuses'',
           JDict [(site, dget_default woo_product ''stock_status'' (JStr ''instock''))]),
        (''statuses'', JDict [(site, dget_default woo_product ''status'' (JStr ''publish''))]),
        (''content'', JDict [(site, content)]),
        (''sync_status'', JDict [(site, JStr ''synced'')]),
        (''last_synced_at'', JStr now)]"
  using assms unfolding site_fields_def then_err_Inr by auto

lemma canonical_fields_other_site:
  "site \<noteq> ''com'' \<Longrightarrow> canonical_fields site woo_product = Inr []"
  by (simp add: canonical_fields_def)

lemma canonical_fields_keys:
  assumes "canonical_fields site woo_product = Inr canonical"
  shows "fst ` set canonical \<subseteq> set canonical_keys"
proof (cases "site = ''com''")
  case True
  with assms show ?thesis
    by (auto simp: canonical_fields_def then_err_Inr canonical_keys_def split: if_splits)
next
  case False
  with assms show ?thesis by (simp add: canonical_fields_def)
qed

lemma process_woo_product_Enriched:
  assumes "process_woo_product env site now flag woo_product = Some (Enriched sku data)"
  shows "\<exists>base canonical.
     site_fields env site now sku woo_product = Inr base \<and>
     canonical_fields site woo_product = Inr canonical \<and>
     data = base @ [(''woo_ids'', JDict [(site, dget woo_product ''id'')])] @ canonical
            @ variation_fields site
                (site_variations_of env woo_product (dget woo_product ''id''))"
  using assms unfolding process_woo_product_def Let_def
  by (auto simp: then_err_Inr split: if_splits sum.splits)

lemma fetch_product_from_woo_Enriched:
  assumes "fetch_product_from_woo env now sku woo_id site = Enriched sku' data"
  shows "\<exists>woo_product base canonical.
     get_product env woo_id = Inr (JDict woo_product) \<and>
     site_fields env site now sku woo_product = Inr base \<and>
     canonical_fields site woo_product = Inr canonical \<and>
     data = base @ canonical
            @ variation_fields site (site_variations_of env woo_product woo_id)"
proof -
  from assms obtain p where p: "get_product env woo_id = Inr p" and
    r: "(case p of
           JDict woo_product \<Rightarrow>
             then_err (site_fields env site now sku woo_product)
               (\<lambda>base. then_err (canonical_fields site woo_product)
                  (\<lambda>canonical.
                     Inr (base @ canonical
                          @ variation_fields site
                              (site_variations_of env woo_product woo_id))))
         | _ \<Rightarrow> Inl AttributeError) = Inr data"
    unfolding fetch_product_from_woo_def
    by (auto simp: then_err_Inr split: if_splits sum.splits)
  then show ?thesis
    by (cases p) (auto simp: then_err_Inr)
qed

text \<open>
  C9. For an item that the enricher turns into an update record: when the item has no
  \<^verbatim>\<open>stock_quantity\<close> key the record carries \<^verbatim>\<open>stock_quantities[site] = 100\<close>, when it
  has no \<^verbatim>\<open>stock_status\<close> key \<^verbatim>\<open>stock_statuses[site] = 'instock'\<close>, and when it has
  no \<^verbatim>\<open>status\<close> key \<^verbatim>\<open>statuses[site] = 'publish'\<close>.
\<close>

theorem enricher_fallback_defaults:
  assumes "process_woo_product env site now False woo_product = Some (Enriched sku data)"
  shows "(map_of woo_product ''stock_quantity'' = None \<longrightarrow>
            dget data ''stock_quantities'' = JDict [(site, JInt 100)]) \<and>
         (map_of woo_product ''stock_status'' = None \<longrightarrow>
            dget data ''stock_statuses'' = JDict [(site, JStr ''instock'')]) \<and>
         (map_of woo_product ''status'' = None \<longrightarrow>
            dget data ''statuses'' = JDict [(site, JStr ''publish'')])"
proof -
  obtain base canonical where
    f: "site_fields env site now sku woo_product = Inr base" and
    d: "data = base @ [(''woo_ids'', JDict [(site, dget woo_product ''id'')])] @ canonical
            @ variation_fields site
                (site_variations_of env woo_product (dget woo_product ''id''))"
    using process_woo_product_Enriched [OF assms] by blast
  from site_fields_shape [OF f] d show ?thesis
    by (auto simp: dget_def dget_default_def py_or_def)
qed

theorem enricher_fallback_defaults_witness:
  "\<exists>data.
     process_woo_product sample_env ''uk'' ''2025-01-01T00:00:00'' False
       [(''sku'', JStr ''A1''), (''id'', JInt 5), (''price'', JInt 30)]
       = Some (Enriched (JStr ''A1'') data) \<and>
     dget data ''stock_quantities'' = JDict [(''uk'', JInt 100)] \<and>
     dget data ''stock_statuses'' = JDict [(''uk'', JStr ''instock'')] \<and>
     dget data ''statuses'' = JDict [(''uk'', JStr ''publish'')]"
proof -
  let ?wp = "[(''sku'', JStr ''A1''), (''id'', JInt 5), (''price'', JInt 30)]"
  obtain data where
    e: "process_woo_product sample_env ''uk'' ''2025-01-01T00:00:00'' False ?wp
          = Some (Enriched (JStr ''A1'') data)"
    by (simp add: process_woo_product_def site_fields_def canonical_fields_def then_err_def
          dget_def dget_default_def py_or_def sample_env_def Let_def)
  from enricher_fallback_defaults [OF e] e show ?thesis by simp
qed

text \<open>
  C10. An item whose \<^verbatim>\<open>stock_quantity\<close> is present and 0 gets
  \<^verbatim>\<open>stock_quantities[site] = 100\<close>, as an item without the key does: \<^verbatim>\<open>0 or 100\<close> is
  100. This holds for \<^verbatim>\<open>process_woo_product\<close> and for \<^verbatim>\<open>fetch_product_from_woo\<close>.
\<close>

theorem enricher_zero_stock_reads_100:
  "(process_woo_product env site now False woo_product = Some (Enriched sku data) \<and>
    (map_of woo_product ''stock_quantity'' = Some (JInt 0) \<or>
     map_of woo_product ''stock_quantity'' = None)
    \<longrightarrow> dget data ''stock_quantities'' = JDict [(site, JInt 100)]) \<and>
   (fetch_product_from_woo env now sku' woo_id site = Enriched sku'' data' \<and>
    get_product env woo_id = Inr (JDict woo_product') \<and>
    (map_of woo_product' ''stock_quantity'' = Some (JInt 0) \<or>
     map_of woo_product' ''stock_quantity'' = None)
    \<longrightarrow> dget data' ''stock_quantities'' = JDict [(site, JInt 100)])"
proof (intro conjI impI; elim conjE)
  assume e: "process_woo_product env site now False woo_product = Some (Enriched sku data)"
    and z: "map_of woo_product ''stock_quantity'' = Some (JInt 0) \<or>
            map_of woo_product ''stock_quantity'' = None"
  obtain base canonical where
    f: "site_fields env site now sku woo_product = Inr base" and
    d: "data = base @ [(''woo_ids'', JDict [(site, dget woo_product ''id'')])] @ canonical
            @ variation_fields site
                (site_variations_of env woo_product (dget woo_product ''id''))"
    using process_woo_product_Enriched [OF e] by blast
  from site_fields_shape [OF f] d z
  show "dget data ''stock_quantities'' = JDict [(site, JInt 100)]"
    by (auto simp: dget_def py_or_def)
next
  assume e: "fetch_product_from_woo env now sku' woo_id site = Enriched sku'' data'"
    and g: "get_product env woo_id = Inr (JDict woo_product')"
    and z: "map_of woo_product' ''stock_quantity'' = Some (JInt 0) \<or>
            map_of woo_product' ''stock_quantity'' = None"
  have "\<exists>base canonical.
          site_fields env site now sku' woo_product' = Inr base \<and>
          data' = base @ canonical
            @ variation_fields site (site_variations_of env woo_product' woo_id)"
    using fetch_product_from_woo_Enriched [OF e] g by auto
  then obtain base canonical where
    f: "site_fields env site now sku' woo_product' = Inr base" and
    d: "data' = base @ canonical
            @ variation_fields site (site_variations_of env woo_product' woo_id)"
    by blast
  from site_fields_shape [OF f] d z
  show "dget data' ''stock_quantities'' = JDict [(site, JInt 100)]"
    by (auto simp: dget_def py_or_def)
qed

theorem enricher_zero_stock_reads_100_witness:
  "\<exists>data data'.
     process_woo_product sample_env ''uk'' ''2025-01-01T00:00:00'' False
       [(''sku'', JStr ''A1''), (''id'', JInt 5), (''price'', JInt 30),
        (''stock_quantity'', JInt 0)]
       = Some (Enriched (JStr ''A1'') data) \<and>
     dget data ''stock_quantities'' = JDict [(''uk'', JInt 100)] \<and>
     fetch_product_from_woo sample_env ''2025-01-01T00:00:00'' (JStr ''A1'') (JInt 5) ''uk''
       = Enriched (JStr ''A1'') data' \<and>
     dget data' ''stock_quantities'' = JDict [(''uk'', JInt 100)]"
proof -
  let ?wp = "[(''sku'', JStr ''A1''), (''id'', JInt 5), (''price'', JInt 30),
              (''stock_quantity'', JInt 0)]"
  obtain data where
    e: "process_woo_product sample_env ''uk'' ''2025-01-01T00:00:00'' False ?wp
          = Some (Enriched (JStr ''A1'') data)"
    by (simp add: process_woo_product_def site_fields_def canonical_fields_def then_err_def
          dget_def dget_default_def py_or_def sample_env_def Let_def)
  obtain data' where
    e': "fetch_product_from_woo sample_env ''2025-01-01T00:00:00'' (JStr ''A1'') (JInt 5) ''uk''
          = Enriched (JStr ''A1'') data'"
    by (simp add: fetch_product_from_woo_def site_fields_def canonical_fields_def then_err_def
          dget_def dget_default_def py_or_def sample_env_def SITES_def Let_def)
  let ?prod = "[(''id'', JInt 5), (''sku'', JStr ''A1''), (''price'', JInt 30),
               (''stock_quantity'', JInt 0)]"
  have g: "get_product sample_env (JInt 5) = Inr (JDict ?prod)"
    by (simp add: sample_env_def)
  note inst = enricher_zero_stock_reads_100
         [of sample_env "''uk''" "''2025-01-01T00:00:00''" ?wp "JStr ''A1''" data
             "JStr ''A1''" "JInt 5" "JStr ''A1''" data' ?prod]
  have q: "dget data ''stock_quantities'' = JDict [(''uk'', JInt 100)]"
    using inst e by simp
  have q': "dget data' ''stock_quantities'' = JDict [(''uk'', JInt 100)]"
    using inst e' g by simp
  show ?thesis
    using e e' q q' by blast
qed


section \<open>Properties of the batch merger\<close>

lemma map_of_dict_merge:
  "map_of (dict_merge a b) x =
     (case map_of (rev b) x of Some v \<Rightarrow> Some v | None \<Rightarrow> map_of a x)"
proof (induction b arbitrary: a)
  case Nil
  show ?case by (simp add: dict_merge_def)
next
  case (Cons kv b)
  obtain k v where kv: "kv = (k, v)" by (cases kv)
  have step: "dict_merge a (kv # b) = dict_merge (AList.update k v a) b"
    by (simp add: dict_merge_def kv)
  have upd: "map_of (AList.update k v a) x = (if x = k then Some v else map_of a x)"
    by (simp add: update_conv')
  show ?case
    unfolding step Cons.IH [of "AList.update k v a"] upd
    by (simp add: kv map_add_def split: option.splits)
qed

lemma map_of_dict_merge_other:
  assumes "k \<notin> fst ` set b"
  shows "map_of (dict_merge a b) k = map_of a k"
proof -
  have "map_of (rev b) k = None"
    using assms by (simp add: map_of_eq_None_iff)
  then show ?thesis
    by (simp add: map_of_dict_merge)
qed

lemma map_of_dict_merge_key:
  assumes "map_of b k = Some v" and "distinct (map fst b)"
  shows "map_of (dict_merge a b) k = Some v"
proof -
  have "(k, v) \<in> set (rev b)"
    using assms(1) by (auto dest: map_of_SomeD)
  moreover have "distinct (map fst (rev b))"
    using assms(2) by (simp add: rev_map [symmetric])
  ultimately have "map_of (rev b) k = Some v"
    by (rule map_of_is_SomeI [rotated])
  then show ?thesis
    by (simp add: map_of_dict_merge)
qed

lemma map_of_select_columns:
  "f \<in> set selected_columns \<Longrightarrow> map_of (select_columns row) f = map_of row f"
  unfolding select_columns_def by (induction row) auto

lemma map_err_Inr:
  "map_err f xs = Inr ys \<longleftrightarrow>
     (\<forall>x\<in>set xs. \<exists>y. f x = Inr y) \<and> ys = map (\<lambda>x. projr (f x)) xs"
proof (induction xs arbitrary: ys)
  case Nil
  show ?case by auto
next
  case (Cons x xs)
  show ?case
  proof (cases "f x")
    case (Inl e)
    then show ?thesis by auto
  next
    case (Inr y)
    show ?thesis
    proof (cases "map_err f xs")
      case (Inl e)
      with Cons.IH [of "map (\<lambda>x. projr (f x)) xs"] Inr show ?thesis by auto
    next
      case r: (Inr zs)
      with Cons.IH [of zs] Inr show ?thesis by auto
    qed
  qed
qed

lemma map_err_keys:
  assumes "map_err g fs = Inr ys" and "\<And>f y. g f = Inr y \<Longrightarrow> fst y = f"
  shows "map fst ys = fs"
  using assms(1)
proof (induction fs arbitrary: ys)
  case Nil
  then show ?case by simp
next
  case (Cons f fs)
  then show ?case
    using assms(2) by (auto split: sum.splits)
qed

lemma map_err_lookup:
  assumes "map_err g fs = Inr ys" and "\<And>f y. g f = Inr y \<Longrightarrow> fst y = f"
    and "f \<in> set fs"
  shows "\<exists>v. g f = Inr (f, v) \<and> map_of ys f = Some v"
  using assms(1,3)
proof (induction fs arbitrary: ys)
  case Nil
  then show ?case by simp
next
  case (Cons f' fs)
  from Cons.prems(1) obtain y zs where
    y: "g f' = Inr y" and zs: "map_err g fs = Inr zs" and ys: "ys = y # zs"
    by (auto split: sum.splits)
  have fy: "fst y = f'" using assms(2) y by simp
  show ?case
  proof (cases "f = f'")
    case True
    then show ?thesis using y fy ys by (cases y) auto
  next
    case False
    with Cons.prems(2) have "f \<in> set fs" by simp
    from Cons.IH [OF zs this] False fy ys show ?thesis by auto
  qed
qed

lemma map_of_copy_if_present:
  "map_of (copy_if_present update key merged) k =
     (if k = key \<and> map_of update key \<noteq> None then map_of update key else map_of merged k)"
  by (auto simp: copy_if_present_def update_conv' split: option.splits)

text \<open>What \<^verbatim>\<open>merged\<close> holds, column by column.\<close>

lemma merge_update_columns:
  assumes "merge_update existing_map update = Inr merged"
  shows "\<exists>sku existing.
     dict_item update ''sku'' = Inr sku \<and>
     existing = (case existing_map sku of None \<Rightarrow> [] | Some p \<Rightarrow> p) \<and>
     map_of merged ''sku'' = Some sku \<and>
     (\<forall>f\<in>set per_site_fields. \<exists>u.
        dget_default update f (JDict []) = JDict u \<and>
        map_of merged f = Some (JDict (dict_merge (safe_dict (dget existing f)) u))) \<and>
     (\<forall>k\<in>set canonical_keys. map_of merged k = map_of update k)"
proof -
  from assms obtain sku fs where
    s: "dict_item update ''sku'' = Inr sku" and
    fs: "map_err (merge_site_field (case existing_map sku of None \<Rightarrow> [] | Some p \<Rightarrow> p) update)
           per_site_fields = Inr fs" and
    m: "merged =
          copy_if_present update ''attributes''
            (copy_if_present update ''categories''
              (copy_if_present update ''images''
                (copy_if_present update ''name''
                  ([(''sku'', sku)] @ fs
                   @ [(''last_synced_at'', dget update ''last_synced_at'')]))))"
    unfolding merge_update_def Let_def by (auto simp: then_err_Inr)
  let ?existing = "case existing_map sku of None \<Rightarrow> [] | Some p \<Rightarrow> p"
  let ?g = "merge_site_field ?existing update"
  from fs have ok: "\<forall>f\<in>set per_site_fields. \<exists>y. ?g f = Inr y"
    and fs_eq: "fs = map (\<lambda>f. projr (?g f)) per_site_fields"
    by (simp_all add: map_err_Inr)
  have field: "\<exists>u. dget_default update f (JDict []) = JDict u \<and>
                 ?g f = Inr (f, JDict (dict_merge (safe_dict (dget ?existing f)) u))"
    if "f \<in> set per_site_fields" for f
    using ok that by (auto simp: merge_site_field_def split: json.splits)
  have tag: "fst y = f" if "?g f = Inr y" for f y
    using that by (auto simp: merge_site_field_def split: json.splits)
  have fs_lookup: "map_of fs f = Some (snd (projr (?g f)))" if "f \<in> set per_site_fields" for f
    using map_err_lookup [OF fs tag that] by auto
  have fs_keys: "fst ` set fs = set per_site_fields"
    using map_err_keys [OF fs tag] by (metis set_map)
  have fs_none: "map_of fs k = None" if "k \<notin> set per_site_fields" for k
    using that fs_keys by (simp add: map_of_eq_None_iff)
  have sku_no: "''sku'' \<notin> set per_site_fields"
    by (simp add: per_site_fields_def)
  define b where
    "b = [(''sku'', sku)] @ fs @ [(''last_synced_at'', dget update ''last_synced_at'')]"
  have m: "merged =
          copy_if_present update ''attributes''
            (copy_if_present update ''categories''
              (copy_if_present update ''images''
                (copy_if_present update ''name'' b)))"
    unfolding b_def by (rule m)
  have base: "map_of b k
                = (if k = ''sku'' then Some sku
                   else if k \<in> set per_site_fields then map_of fs k
                   else if k = ''last_synced_at'' then Some (dget update ''last_synced_at'')
                   else None)" for k
  proof -
    have "''last_synced_at'' \<notin> set per_site_fields"
      by (simp add: per_site_fields_def)
    then show ?thesis
      unfolding b_def
      using fs_none [of k] sku_no by (auto simp: map_add_def split: option.splits)
  qed
  have c1: "map_of merged ''sku'' = Some sku"
    unfolding m by (simp add: map_of_copy_if_present base)
  have c2: "\<exists>u. dget_default update f (JDict []) = JDict u \<and>
          map_of merged f = Some (JDict (dict_merge (safe_dict (dget ?existing f)) u))"
    if f: "f \<in> set per_site_fields" for f
  proof -
    obtain u where u: "dget_default update f (JDict []) = JDict u"
      and g: "?g f = Inr (f, JDict (dict_merge (safe_dict (dget ?existing f)) u))"
      using field [OF f] by blast
    have nk: "f \<noteq> ''sku''" "f \<noteq> ''name''" "f \<noteq> ''images''" "f \<noteq> ''categories''"
      "f \<noteq> ''attributes''"
      using f by (auto simp: per_site_fields_def)
    have "map_of merged f = map_of fs f"
      unfolding m using nk f by (simp add: map_of_copy_if_present base)
    with fs_lookup [OF f] g u show ?thesis by simp
  qed
  have nb: "map_of b k = None" if "k \<in> set canonical_keys" for k
    using that unfolding base by (auto simp: canonical_keys_def per_site_fields_def)
  have c3: "map_of merged k = map_of update k" if k: "k \<in> set canonical_keys" for k
  proof -
    from k consider "k = ''name''" | "k = ''images''" | "k = ''categories''"
      | "k = ''attributes''"
      by (auto simp: canonical_keys_def)
    then show ?thesis
    proof cases
      case 1
      then show ?thesis
        unfolding m using nb [OF k] by (simp add: map_of_copy_if_present)
    next
      case 2
      then show ?thesis
        unfolding m using nb [OF k] by (simp add: map_of_copy_if_present)
    next
      case 3
      then show ?thesis
        unfolding m using nb [OF k] by (simp add: map_of_copy_if_present)
    next
      case 4
      then show ?thesis
        unfolding m using nb [OF k] by (simp add: map_of_copy_if_present)
    qed
  qed
  show ?thesis
  proof (intro exI conjI)
    show "dict_item update ''sku'' = Inr sku" by (rule s)
    show "?existing = (case existing_map sku of None \<Rightarrow> [] | Some p \<Rightarrow> p)" by simp
    show "map_of merged ''sku'' = Some sku" by (rule c1)
    show "\<forall>f\<in>set per_site_fields. \<exists>u.
        dget_default update f (JDict []) = JDict u \<and>
        map_of merged f = Some (JDict (dict_merge (safe_dict (dget ?existing f)) u))"
      using c2 by blast
    show "\<forall>k\<in>set canonical_keys. map_of merged k = map_of update k"
      using c3 by blast
  qed
qed

lemma map_of_rev_distinct:
  assumes "distinct (map fst b)"
  shows "map_of (rev b) k = map_of b k"
proof (cases "map_of b k")
  case None
  then have "k \<notin> fst ` set (rev b)"
    by (simp add: map_of_eq_None_iff)
  then have "map_of (rev b) k = None"
    using map_of_eq_None_iff [of "rev b" k] by blast
  with None show ?thesis by simp
next
  case (Some v)
  then have "(k, v) \<in> set (rev b)" by (auto dest: map_of_SomeD)
  moreover have "distinct (map fst (rev b))"
    using assms by (simp add: rev_map [symmetric])
  ultimately have "map_of (rev b) k = Some v"
    by (rule map_of_is_SomeI [rotated])
  with Some show ?thesis by simp
qed

lemma map_of_dict_merge_distinct:
  assumes "distinct (map fst b)"
  shows "map_of (dict_merge a b) k =
         (case map_of b k of Some v \<Rightarrow> Some v | None \<Rightarrow> map_of a k)"
  by (simp add: map_of_dict_merge map_of_rev_distinct [OF assms])

lemma distinct_copy_if_present:
  "distinct (map fst merged) \<Longrightarrow> distinct (map fst (copy_if_present update key merged))"
  by (simp add: copy_if_present_def distinct_update split: option.splits)

lemma merge_update_distinct:
  assumes "merge_update existing_map update = Inr merged"
  shows "distinct (map fst merged)"
proof -
  from assms obtain sku fs where
    fs: "map_err (merge_site_field (case existing_map sku of None \<Rightarrow> [] | Some p \<Rightarrow> p) update)
           per_site_fields = Inr fs" and
    m: "merged =
          copy_if_present update ''attributes''
            (copy_if_present update ''categories''
              (copy_if_present update ''images''
                (copy_if_present update ''name''
                  ([(''sku'', sku)] @ fs
                   @ [(''last_synced_at'', dget update ''last_synced_at'')]))))"
    unfolding merge_update_def Let_def by (auto simp: then_err_Inr)
  have tag: "fst y = f"
    if "merge_site_field (case existing_map sku of None \<Rightarrow> [] | Some p \<Rightarrow> p) update f = Inr y"
    for f y
    using that by (auto simp: merge_site_field_def split: json.splits)
  have "map fst fs = per_site_fields"
    using map_err_keys [OF fs tag] .
  then have "distinct (map fst ([(''sku'', sku)] @ fs
                   @ [(''last_synced_at'', dget update ''last_synced_at'')]))"
    by (simp add: per_site_fields_def)
  then show ?thesis
    unfolding m by (intro distinct_copy_if_present)
qed

text \<open>The bulk upsert changes the row of a SKU only through the records of that SKU.\<close>

lemma upsert_preserves:
  assumes "P (db sku)"
    and "\<And>r row. r \<in> set rs \<Longrightarrow> dget r ''sku'' = sku \<Longrightarrow> P row \<Longrightarrow>
           P (Some (dict_merge (case row of None \<Rightarrow> [] | Some x \<Rightarrow> x) r))"
  shows "P (upsert db rs sku)"
  using assms
proof (induction rs arbitrary: db)
  case Nil
  then show ?case by simp
next
  case (Cons r rs)
  let ?s = "db(dget r ''sku'' \<mapsto>
              dict_merge (case db (dget r ''sku'') of None \<Rightarrow> [] | Some row \<Rightarrow> row) r)"
  have "P (?s sku)"
    using Cons.prems(1) Cons.prems(2) [of r "db sku"] by auto
  then have "P (upsert ?s rs sku)"
    using Cons.prems(2) by (intro Cons.IH) auto
  then show ?case by simp
qed


text \<open>The records a batch writes, in terms of the updates they come from.\<close>

lemma final_updates_of_Inr:
  assumes "final_updates_of db updates = Inr final_updates"
  shows "\<exists>skus. map_err (\<lambda>u. dict_item u ''sku'') updates = Inr skus \<and>
           map_err (merge_update (existing_map_of db skus)) updates = Inr final_updates"
  using assms by (simp add: final_updates_of_def then_err_Inr)

lemma final_updates_member:
  assumes "final_updates_of db updates = Inr final_updates"
    and "r \<in> set final_updates"
  shows "\<exists>update sku row.
           update \<in> set updates \<and> dict_item update ''sku'' = Inr sku \<and>
           row = (case db sku of None \<Rightarrow> [] | Some p \<Rightarrow> select_columns p) \<and>
           merge_update (\<lambda>s. if s = sku then Some row else None) update = Inr r"
proof -
  obtain skus where
    sk: "map_err (\<lambda>u. dict_item u ''sku'') updates = Inr skus" and
    fu: "map_err (merge_update (existing_map_of db skus)) updates = Inr final_updates"
    using final_updates_of_Inr [OF assms(1)] by blast
  from fu assms(2) obtain update where
    u: "update \<in> set updates" and
    r: "merge_update (existing_map_of db skus) update = Inr r"
    by (auto simp: map_err_Inr)
  from sk u obtain sku where s: "dict_item update ''sku'' = Inr sku"
    by (auto simp: map_err_Inr)
  from sk have "skus = map (\<lambda>u. projr (dict_item u ''sku'')) updates"
    by (simp add: map_err_Inr)
  with u s have mem: "sku \<in> set skus" by force
  let ?row = "case db sku of None \<Rightarrow> [] | Some p \<Rightarrow> select_columns p"
  have same: "(case existing_map_of db skus sku of None \<Rightarrow> [] | Some p \<Rightarrow> p) = ?row"
    using mem by (simp add: existing_map_of_def split: option.splits)
  have "merge_update (\<lambda>s. if s = sku then Some ?row else None) update =
        merge_update (existing_map_of db skus) update"
    unfolding merge_update_def using s same by (simp add: then_err_def)
  with r u s show ?thesis by auto
qed


lemma merge_update_succeeds:
  assumes "carries_only site update"
  shows "\<exists>merged. merge_update existing_map update = Inr merged"
proof -
  from assms obtain sku where s: "dict_item update ''sku'' = Inr sku"
    by (auto simp: carries_only_def dict_has_def dict_item_def)
  let ?g = "merge_site_field (case existing_map sku of None \<Rightarrow> [] | Some p \<Rightarrow> p) update"
  have "\<forall>f\<in>set per_site_fields. \<exists>y. ?g f = Inr y"
    using assms by (auto simp: carries_only_def list_all_iff merge_site_field_def
                         split: json.splits)
  then obtain fs where "map_err ?g per_site_fields = Inr fs"
    by (auto simp: map_err_Inr)
  then show ?thesis
    unfolding merge_update_def Let_def using s by (simp add: then_err_def)
qed

lemma batch_update_products_succeeds:
  assumes "\<forall>u\<in>set updates. carries_only site u"
  shows "\<exists>final_updates.
           final_updates_of db updates = Inr final_updates \<and>
           batch_update_products db updates site' = Inr (upsert db final_updates)"
proof -
  have "\<forall>u\<in>set updates. \<exists>y. dict_item u ''sku'' = Inr y"
    using assms by (auto simp: carries_only_def dict_has_def dict_item_def)
  then obtain skus where sk: "map_err (\<lambda>u. dict_item u ''sku'') updates = Inr skus"
    by (auto simp: map_err_Inr)
  have "\<forall>u\<in>set updates. \<exists>y. merge_update (existing_map_of db skus) u = Inr y"
    using assms merge_update_succeeds by blast
  then obtain fu where
    fu: "map_err (merge_update (existing_map_of db skus)) updates = Inr fu"
    by (auto simp: map_err_Inr)
  have f: "final_updates_of db updates = Inr fu"
    using sk fu by (simp add: final_updates_of_def then_err_def)
  have "upsert db fu = db" if "updates = []"
    using that fu by simp
  then have "batch_update_products db updates site' = Inr (upsert db fu)"
    using f by (simp add: batch_update_products_def then_err_def)
  with f show ?thesis by blast
qed

text \<open>What an enriched update record holds, key by key.\<close>

lemma update_data_lookup:
  assumes base: "site_fields env site now sku woo_product = Inr base"
    and canon: "canonical_fields site woo_product = Inr canonical"
    and mid: "fst ` set mid \<subseteq> {''woo_ids''}"
    and data: "data = base @ mid @ canonical @ variation_fields site vs"
  shows "map_of data ''sku'' = Some sku"
    and "\<forall>f\<in>set per_site_fields. \<exists>v. map_of data f = Some (JDict [(site, v)])"
    and "map_of data ''variations'' = Some (JDict [(site, JList vs)])"
    and "map_of data ''variation_counts'' = Some (JDict [(site, JInt (int (length vs)))])"
    and "\<forall>k\<in>set canonical_keys. map_of data k = map_of canonical k"
proof -
  have mid_none: "map_of mid k = None" if "k \<noteq> ''woo_ids''" for k
    using mid that by (auto simp: map_of_eq_None_iff)
  have canon_none: "map_of canonical k = None" if "k \<notin> set canonical_keys" for k
    using canonical_fields_keys [OF canon] that by (auto simp: map_of_eq_None_iff)
  obtain price regular_price content where b:
    "base =
       [(''sku'', sku),
        (''prices'', JDict [(site, price)]),
        (''regular_prices'', JDict [(site, regular_price)]),
        (''stock_quantities'',
           JDict [(site, py_or (dget woo_product ''stock_quantity'') (JInt 100))]),
        (''stock_statuses'',
           JDict [(site, dget_default woo_product ''stock_status'' (JStr ''instock''))]),
        (''statuses'', JDict [(site, dget_default woo_product ''status'' (JStr ''publish''))]),
        (''content'', JDict [(site, content)]),
        (''sync_status'', JDict [(site, JStr ''synced'')]),
        (''last_synced_at'', JStr now)]"
    using site_fields_shape [OF base] by blast
  have look: "map_of data k =
      (case map_of base k of Some v \<Rightarrow> Some v
       | None \<Rightarrow> (case map_of mid k of Some v \<Rightarrow> Some v
         | None \<Rightarrow> (case map_of canonical k of Some v \<Rightarrow> Some v
           | None \<Rightarrow> map_of (variation_fields site vs) k)))" for k
    unfolding data by (simp add: map_add_def split: option.splits)
  show "map_of data ''sku'' = Some sku"
    unfolding look by (simp add: b)
  show "\<forall>f\<in>set per_site_fields. \<exists>v. map_of data f = Some (JDict [(site, v)])"
    unfolding per_site_fields_def look
    by (simp add: b mid_none canon_none canonical_keys_def variation_fields_def)
  show "map_of data ''variations'' = Some (JDict [(site, JList vs)])"
    unfolding look by (simp add: b mid_none canon_none canonical_keys_def variation_fields_def)
  show "map_of data ''variation_counts'' = Some (JDict [(site, JInt (int (length vs)))])"
    unfolding look by (simp add: b mid_none canon_none canonical_keys_def variation_fields_def)
  have vf_none: "map_of (variation_fields site vs) k = None"
    if "k \<noteq> ''variations''" "k \<noteq> ''variation_counts''" for k
    using that by (simp add: variation_fields_def)
  have c1: "map_of data ''name'' = map_of canonical ''name''"
    unfolding look by (simp add: b mid_none vf_none split: option.splits)
  have c2: "map_of data ''images'' = map_of canonical ''images''"
    unfolding look by (simp add: b mid_none vf_none split: option.splits)
  have c3: "map_of data ''categories'' = map_of canonical ''categories''"
    unfolding look by (simp add: b mid_none vf_none split: option.splits)
  have c4: "map_of data ''attributes'' = map_of canonical ''attributes''"
    unfolding look by (simp add: b mid_none vf_none split: option.splits)
  show "\<forall>k\<in>set canonical_keys. map_of data k = map_of canonical k"
    unfolding canonical_keys_def using c1 c2 c3 c4 by simp
qed
lemma keyed_update_carries_only:
  assumes "map_of data ''sku'' = Some sku"
    and "\<forall>f\<in>set per_site_fields. \<exists>v. map_of data f = Some (JDict [(site, v)])"
  shows "carries_only site data"
  using assms by (auto simp: carries_only_def dict_has_def list_all_iff dget_default_def)

lemma process_woo_product_carries_only:
  assumes "process_woo_product env site now flag woo_product = Some (Enriched sku data)"
  shows "carries_only site data"
proof -
  obtain base canonical where
    f: "site_fields env site now sku woo_product = Inr base" and
    c: "canonical_fields site woo_product = Inr canonical" and
    d: "data = base @ [(''woo_ids'', JDict [(site, dget woo_product ''id'')])] @ canonical
            @ variation_fields site
                (site_variations_of env woo_product (dget woo_product ''id''))"
    using process_woo_product_Enriched [OF assms] by blast
  show ?thesis
    by (rule keyed_update_carries_only) (rule update_data_lookup [OF f c _ d]; simp)+
qed

lemma carries_only_keys:
  assumes "carries_only A update" and "field \<in> set per_site_fields"
    and "dget_default update field (JDict []) = JDict uf"
  shows "fst ` set uf \<subseteq> {A}"
proof -
  from assms(1,2) have
    "(case dget_default update field (JDict []) of
        JDict u \<Rightarrow> list_all (\<lambda>kv. fst kv = A) u | _ \<Rightarrow> False)"
    by (simp add: carries_only_def list_all_iff)
  with assms(3) show ?thesis
    by (auto simp: list_all_iff)
qed

text \<open>
  C1. A batch written for site A, every update of which carries no key other than A in
  its per-site fields, succeeds and leaves the entry of every other site B in every
  per-site field of every stored record as it was (an absent entry stays absent). The
  merged field is \<^verbatim>\<open>{**safe_dict(existing[field]), **update[field]}\<close>, and \<open>safe_dict\<close>
  of a value that is not a dictionary is the empty dictionary.
\<close>

theorem merge_preserves_foreign_sites:
  assumes "\<forall>u\<in>set updates. carries_only A u"
    and "field \<in> set per_site_fields" and "B \<noteq> A"
  shows "(\<exists>db'.
            batch_update_products db updates A = Inr db' \<and>
            (\<forall>sku. site_entry db' sku field B = site_entry db sku field B)) \<and>
         (\<forall>update existing_map merged.
            merge_update existing_map update = Inr merged \<longrightarrow>
            (\<exists>sku u.
               dict_item update ''sku'' = Inr sku \<and>
               dget_default update field (JDict []) = JDict u \<and>
               dget merged field =
                 JDict (dict_merge
                   (safe_dict (dget (case existing_map sku of None \<Rightarrow> [] | Some p \<Rightarrow> p) field))
                   u))) \<and>
         (\<forall>v. (\<forall>d. v \<noteq> JDict d) \<longrightarrow> safe_dict v = [])"
proof (intro conjI)
  obtain fu where
    fu: "final_updates_of db updates = Inr fu" and
    res: "batch_update_products db updates A = Inr (upsert db fu)"
    using batch_update_products_succeeds [OF assms(1)] by blast
  have "site_entry (upsert db fu) sku field B = site_entry db sku field B" for sku
  proof -
    let ?e0 = "site_entry db sku field B"
    let ?P = "\<lambda>row. (case row of None \<Rightarrow> None
                           | Some x \<Rightarrow> map_of (safe_dict (dget x field)) B) = ?e0"
    have "?P (upsert db fu sku)"
    proof (rule upsert_preserves)
      show "?P (db sku)"
        by (simp add: site_entry_def)
    next
      fix r row
      assume r: "r \<in> set fu" and k: "dget r ''sku'' = sku"
      obtain update sku' where
        u: "update \<in> set updates" and
        s': "dict_item update ''sku'' = Inr sku'" and
        m: "merge_update
              (\<lambda>s. if s = sku'
                    then Some (case db sku' of None \<Rightarrow> [] | Some p \<Rightarrow> select_columns p)
                    else None) update = Inr r"
        using final_updates_member [OF fu r] by blast
      let ?existing = "case db sku' of None \<Rightarrow> [] | Some p \<Rightarrow> select_columns p"
      from merge_update_columns [OF m] obtain s existing where
        s: "dict_item update ''sku'' = Inr s" and
        ex: "existing = (case (if s = sku' then Some ?existing else None) of
                           None \<Rightarrow> [] | Some p \<Rightarrow> p)" and
        rs: "map_of r ''sku'' = Some s" and
        fields: "\<forall>f\<in>set per_site_fields. \<exists>u.
                   dget_default update f (JDict []) = JDict u \<and>
                   map_of r f = Some (JDict (dict_merge (safe_dict (dget existing f)) u))"
        by blast
      have "s = sku'" using s s' by simp
      then have ex': "existing = ?existing" using ex by simp
      have "sku' = sku" using rs k \<open>s = sku'\<close> by (simp add: dget_def)
      from fields assms(2) obtain uf where
        uf: "dget_default update field (JDict []) = JDict uf" and
        rf: "map_of r field = Some (JDict (dict_merge (safe_dict (dget ?existing field)) uf))"
        unfolding ex' by blast
      have "carries_only A update"
        using assms(1) u by blast
      from carries_only_keys [OF this assms(2) uf] assms(3)
      have keys: "B \<notin> fst ` set uf" by auto
      have col: "field \<in> set selected_columns"
        using assms(2) by (simp add: selected_columns_def)
      have old: "map_of (safe_dict (dget ?existing field)) B = site_entry db sku' field B"
        by (cases "db sku'")
           (simp_all add: site_entry_def dget_def safe_dict_def map_of_select_columns [OF col])
      have new: "map_of (dict_merge (case row of None \<Rightarrow> [] | Some x \<Rightarrow> x) r) field
                   = map_of r field"
        using rf by (simp add: map_of_dict_merge_distinct [OF merge_update_distinct [OF m]])
      have "dget (dict_merge (case row of None \<Rightarrow> [] | Some x \<Rightarrow> x) r) field
              = JDict (dict_merge (safe_dict (dget ?existing field)) uf)"
        using new rf by (simp add: dget_def)
      then have "map_of (safe_dict
                   (dget (dict_merge (case row of None \<Rightarrow> [] | Some x \<Rightarrow> x) r) field)) B
                 = map_of (safe_dict (dget ?existing field)) B"
        using keys by (simp add: safe_dict_def map_of_dict_merge_other)
      with old \<open>sku' = sku\<close>
      show "?P (Some (dict_merge (case row of None \<Rightarrow> [] | Some x \<Rightarrow> x) r))"
        by simp
    qed
    then show ?thesis by (simp add: site_entry_def)
  qed
  with res show "\<exists>db'.
      batch_update_products db updates A = Inr db' \<and>
      (\<forall>sku. site_entry db' sku field B = site_entry db sku field B)"
    by blast
next
  show "\<forall>update existing_map merged.
          merge_update existing_map update = Inr merged \<longrightarrow>
          (\<exists>sku u.
             dict_item update ''sku'' = Inr sku \<and>
             dget_default update field (JDict []) = JDict u \<and>
             dget merged field =
               JDict (dict_merge
                 (safe_dict (dget (case existing_map sku of None \<Rightarrow> [] | Some p \<Rightarrow> p) field))
                 u))"
  proof (intro allI impI)
    fix update existing_map merged
    assume "merge_update existing_map update = Inr merged"
    from merge_update_columns [OF this] assms(2)
    show "\<exists>sku u.
             dict_item update ''sku'' = Inr sku \<and>
             dget_default update field (JDict []) = JDict u \<and>
             dget merged field =
               JDict (dict_merge
                 (safe_dict (dget (case existing_map sku of None \<Rightarrow> [] | Some p \<Rightarrow> p) field))
                 u)"
      by (fastforce simp: dget_def)
  qed
next
  show "\<forall>v. (\<forall>d. v \<noteq> JDict d) \<longrightarrow> safe_dict v = []"
    by (auto simp: safe_dict_def split: json.splits)
qed

theorem merge_preserves_foreign_sites_witness:
  "carries_only ''uk'' [(''sku'', JStr ''A1''), (''prices'', JDict [(''uk'', JFloat 30)])] \<and>
   site_entry sample_store (JStr ''A1'') ''prices'' ''com'' = Some (JFloat 25) \<and>
   (\<exists>db'.
      batch_update_products sample_store
        [[(''sku'', JStr ''A1''), (''prices'', JDict [(''uk'', JFloat 30)])]] ''uk''
        = Inr db' \<and>
      site_entry db' (JStr ''A1'') ''prices'' ''com'' = Some (JFloat 25))"
proof -
  let ?u = "[(''sku'', JStr ''A1''), (''prices'', JDict [(''uk'', JFloat 30)])]"
  have c: "carries_only ''uk'' ?u"
    by (simp add: carries_only_def per_site_fields_def dget_default_def dict_has_def)
  then have all: "\<forall>u\<in>set [?u]. carries_only ''uk'' u" by simp
  have f: "''prices'' \<in> set per_site_fields"
    by (simp add: per_site_fields_def)
  have e: "site_entry sample_store (JStr ''A1'') ''prices'' ''com'' = Some (JFloat 25)"
    by (simp add: site_entry_def sample_store_def dget_def safe_dict_def)
  have "''com'' \<noteq> ''uk''" by simp
  from merge_preserves_foreign_sites [OF all f this, of sample_store] e c
  show ?thesis by auto
qed

text \<open>
  C5. The update records that \<^verbatim>\<open>process_woo_product\<close> produces for a site other than
  \<^verbatim>\<open>com\<close> have none of the keys \<^verbatim>\<open>name\<close>, \<^verbatim>\<open>images\<close>, \<^verbatim>\<open>categories\<close>,
  \<^verbatim>\<open>attributes\<close>; a merged record has such a key exactly when its update has it, with
  the update's value; and a batch of such records succeeds and leaves these four columns of
  every stored record as they were.
\<close>

theorem canonical_write_isolation:
  assumes "site \<noteq> ''com''"
    and "\<forall>u\<in>set updates. \<exists>now woo_product sku.
           process_woo_product env site now False woo_product = Some (Enriched sku u)"
  shows "(\<forall>u\<in>set updates. \<forall>k\<in>set canonical_keys. map_of u k = None) \<and>
         (\<forall>update existing_map merged. \<forall>k\<in>set canonical_keys.
            merge_update existing_map update = Inr merged \<longrightarrow>
            map_of merged k = map_of update k) \<and>
         (\<exists>db'.
            batch_update_products db updates site = Inr db' \<and>
            (\<forall>sku. \<forall>k\<in>set canonical_keys. column db' sku k = column db sku k))"
proof (intro conjI)
  have none: "map_of u k = None" if "u \<in> set updates" "k \<in> set canonical_keys" for u k
  proof -
    from assms(2) that(1) obtain now woo_product sku where
      e: "process_woo_product env site now False woo_product = Some (Enriched sku u)"
      by blast
    obtain base canonical where
      f: "site_fields env site now sku woo_product = Inr base" and
      c: "canonical_fields site woo_product = Inr canonical" and
      d: "u = base @ [(''woo_ids'', JDict [(site, dget woo_product ''id'')])] @ canonical
              @ variation_fields site
                  (site_variations_of env woo_product (dget woo_product ''id''))"
      using process_woo_product_Enriched [OF e] by blast
    have "canonical = []"
      using c canonical_fields_other_site [OF assms(1), of woo_product] by simp
    moreover have "map_of u k = map_of canonical k"
      using update_data_lookup(5) [OF f c _ d] that(2) by simp
    ultimately show ?thesis by simp
  qed
  then show "\<forall>u\<in>set updates. \<forall>k\<in>set canonical_keys. map_of u k = None"
    by blast
  show "\<forall>update existing_map merged. \<forall>k\<in>set canonical_keys.
          merge_update existing_map update = Inr merged \<longrightarrow>
          map_of merged k = map_of update k"
    using merge_update_columns by blast
  have co: "\<forall>u\<in>set updates. carries_only site u"
    using assms(2) process_woo_product_carries_only by blast
  obtain fu where
    fu: "final_updates_of db updates = Inr fu" and
    res: "batch_update_products db updates site = Inr (upsert db fu)"
    using batch_update_products_succeeds [OF co] by blast
  have "column (upsert db fu) sku k = column db sku k"
    if k: "k \<in> set canonical_keys" for sku k
  proof -
    let ?P = "\<lambda>row. (case row of None \<Rightarrow> None | Some x \<Rightarrow> map_of x k) = column db sku k"
    have "?P (upsert db fu sku)"
    proof (rule upsert_preserves)
      show "?P (db sku)" by (simp add: column_def)
    next
      fix r row
      assume r: "r \<in> set fu" and p: "?P row"
      obtain update sku' where
        u: "update \<in> set updates" and
        m: "merge_update
              (\<lambda>s. if s = sku'
                    then Some (case db sku' of None \<Rightarrow> [] | Some p \<Rightarrow> select_columns p)
                    else None) update = Inr r"
        using final_updates_member [OF fu r] by blast
      have "map_of r k = map_of update k"
        using merge_update_columns [OF m] k by blast
      then have "map_of r k = None"
        using none [OF u k] by simp
      then have "map_of (dict_merge (case row of None \<Rightarrow> [] | Some x \<Rightarrow> x) r) k
                   = map_of (case row of None \<Rightarrow> [] | Some x \<Rightarrow> x) k"
        by (simp add: map_of_dict_merge_distinct [OF merge_update_distinct [OF m]])
      with p show "?P (Some (dict_merge (case row of None \<Rightarrow> [] | Some x \<Rightarrow> x) r))"
        by (cases row) simp_all
    qed
    then show ?thesis by (simp add: column_def)
  qed
  with res show "\<exists>db'.
      batch_update_products db updates site = Inr db' \<and>
      (\<forall>sku. \<forall>k\<in>set canonical_keys. column db' sku k = column db sku k)"
    by blast
qed

lemma sample_item_enriched:
  "\<exists>data.
     process_woo_product sample_env ''uk'' ''2025-01-01T00:00:00'' False sample_item
       = Some (Enriched (JStr ''A1'') data)"
  by (simp add: process_woo_product_def site_fields_def canonical_fields_def then_err_def
        dget_def dget_default_def py_or_def sample_env_def sample_item_def Let_def)

theorem canonical_write_isolation_witness:
  "column sample_store (JStr ''A1'') ''name'' = Some (JStr ''Home shirt'') \<and>
   (\<exists>data db'.
      process_woo_product sample_env ''uk'' ''2025-01-01T00:00:00'' False sample_item
        = Some (Enriched (JStr ''A1'') data) \<and>
      map_of data ''name'' = None \<and>
      batch_update_products sample_store [data] ''uk'' = Inr db' \<and>
      column db' (JStr ''A1'') ''name'' = Some (JStr ''Home shirt''))"
proof -
  obtain data where
    e: "process_woo_product sample_env ''uk'' ''2025-01-01T00:00:00'' False sample_item
          = Some (Enriched (JStr ''A1'') data)"
    using sample_item_enriched by blast
  then have all: "\<forall>u\<in>set [data]. \<exists>now woo_product sku.
      process_woo_product sample_env ''uk'' now False woo_product = Some (Enriched sku u)"
    by auto
  have c: "column sample_store (JStr ''A1'') ''name'' = Some (JStr ''Home shirt'')"
    by (simp add: column_def sample_store_def)
  have k: "''name'' \<in> set canonical_keys"
    by (simp add: canonical_keys_def)
  have "''uk'' \<noteq> ''com''" by simp
  from canonical_write_isolation [OF this all, of sample_store] k
  obtain db' where
    "map_of data ''name'' = None"
    "batch_update_products sample_store [data] ''uk'' = Inr db'"
    "column db' (JStr ''A1'') ''name'' = column sample_store (JStr ''A1'') ''name''"
    by auto
  with e c show ?thesis by auto
qed





section \<open>Properties of the site synchronisation\<close>



text \<open>The events of a state and their three projections.\<close>

lemma events_update_progress:
  "events (update_progress status current n_total n_success n_failed st) =
     events st @ [Reported status current n_total n_success n_failed]"
  by (simp add: update_progress_def)

lemma projections_append:
  "reports (st\<lparr>events := es @ [e]\<rparr>) =
     reports (st\<lparr>events := es\<rparr>)
     @ (case e of Reported s c t n f \<Rightarrow> [(s, c, t, n, f)] | _ \<Rightarrow> [])"
  "polls (st\<lparr>events := es @ [e]\<rparr>) =
     polls (st\<lparr>events := es\<rparr>) @ (case e of Polled c \<Rightarrow> [c] | _ \<Rightarrow> [])"
  "writes (st\<lparr>events := es @ [e]\<rparr>) =
     writes (st\<lparr>events := es\<rparr>) @ (case e of Wrote b \<Rightarrow> [b] | _ \<Rightarrow> [])"
  by (simp_all add: reports_def polls_def writes_def)
































end
